theory Spec2Isabelle
  imports Main "HOL-Library.Word"
begin

unbundle bit_operations_syntax

section \<open>Bytes, integers and errors\<close>

text \<open>
  The program is Python: integers are unbounded (\<open>int\<close>), a \<open>bytes\<close> object is a
  list of 8-bit words, and every exception the code can raise is a value of \<open>error\<close>
  returned on the left of a sum. \<open>Exception\<close> carries the message of the two
  plain \<open>raise Exception(...)\<close> statements of the source.
\<close>

type_synonym byte = "8 word"
type_synonym bytes = "byte list"

datatype error =
    OverflowError
  | KeyError string
  | ValueError
  | BinasciiError
  | Exception string

text \<open>Sequencing of a step that may raise: the exception of the first step propagates.\<close>

definition and_then :: "error + 'a \<Rightarrow> ('a \<Rightarrow> error + 'b) \<Rightarrow> error + 'b" where
  "and_then r f = (case r of Inl e \<Rightarrow> Inl e | Inr x \<Rightarrow> f x)"

text \<open>
  \<open>int.to_bytes(length, 'little')\<close> with the default \<open>signed=False\<close>: a negative
  value and a value that does not fit \<open>length\<close> bytes raise \<open>OverflowError\<close>;
  otherwise the least significant byte comes first.
\<close>

fun le_bytes :: "nat \<Rightarrow> int \<Rightarrow> bytes" where
  "le_bytes 0 v = []"
| "le_bytes (Suc n) v = word_of_int v # le_bytes n (v div 256)"

definition to_bytes :: "int \<Rightarrow> nat \<Rightarrow> error + bytes" where
  "to_bytes v n =
     (if v < 0 then Inl OverflowError
      else if 256 ^ n \<le> v then Inl OverflowError
      else Inr (le_bytes n v))"

text \<open>The integer a little-endian byte string stands for (used to state results only).\<close>

fun le_value :: "bytes \<Rightarrow> int" where
  "le_value [] = 0"
| "le_value (b # bs) = uint b + 256 * le_value bs"

section \<open>CompactEncoder\<close>

text \<open>\<open>encode_compact_u32\<close>, branch for branch.\<close>

definition encode_compact_u32 :: "int \<Rightarrow> error + bytes" where
  "encode_compact_u32 v =
     (if v < 64 then to_bytes (push_bit 2 v AND 255) 1
      else if v < 16384 then to_bytes (push_bit 2 v OR 1) 2
      else if v < 1073741824 then to_bytes (push_bit 2 v OR 2) 4
      else to_bytes (push_bit 2 v OR 3) 5)"

text \<open>The tier of \<section>4.1 an output belongs to, in the words of the table: its width
  in bytes, the little-endian integer it spells, and the two low bits of its first byte.\<close>

definition compact_tier :: "int \<Rightarrow> nat \<Rightarrow> int \<Rightarrow> bytes \<Rightarrow> bool" where
  "compact_tier v width tag bs =
     (length bs = width \<and> le_value bs = (push_bit 2 v OR tag) \<and> uint (hd bs) AND 3 = tag)"

section \<open>PulseValidator\<close>

text \<open>
  The beacon's JSON object, with the field types its interface documents (\<open>round\<close> an
  integer of any size and sign, \<open>randomness\<close> and \<open>signature\<close> strings); a field
  may be absent, and \<open>drand_resp["k"]\<close> on an absent key raises \<open>KeyError\<close>. Values
  of other JSON types are outside the model.
\<close>

record drand_resp =
  resp_round :: "int option"
  resp_randomness :: "string option"
  resp_signature :: "string option"

record pulse =
  pulse_round :: int
  pulse_randomness :: bytes
  pulse_signature :: bytes

text \<open>
  \<open>binascii.unhexlify\<close> on a string: a character outside ASCII raises \<open>ValueError\<close>,
  an odd length or a character that is no hexadecimal digit (either case) raises
  \<open>binascii.Error\<close>.
\<close>

definition hex_digit :: "char \<Rightarrow> nat option" where
  "hex_digit c =
     (let n = (of_char c :: nat) in
      if 48 \<le> n \<and> n \<le> 57 then Some (n - 48)
      else if 97 \<le> n \<and> n \<le> 102 then Some (n - 87)
      else if 65 \<le> n \<and> n \<le> 70 then Some (n - 55)
      else None)"

fun unhex_pairs :: "string \<Rightarrow> error + bytes" where
  "unhex_pairs [] = Inr []"
| "unhex_pairs [c] = Inl BinasciiError"
| "unhex_pairs (a # b # cs) =
     (case hex_digit a of
        None \<Rightarrow> Inl BinasciiError
      | Some h \<Rightarrow>
          (case hex_digit b of
             None \<Rightarrow> Inl BinasciiError
           | Some l \<Rightarrow> and_then (unhex_pairs cs) (\<lambda>rest. Inr (of_nat (16 * h + l) # rest))))"

definition unhexlify :: "string \<Rightarrow> error + bytes" where
  "unhexlify s =
     (if list_ex (\<lambda>c. 128 \<le> (of_char c :: nat)) s then Inl ValueError
      else if odd (length s) then Inl BinasciiError
      else unhex_pairs s)"

definition try_into_pulse :: "drand_resp \<Rightarrow> error + pulse" where
  "try_into_pulse drand_resp =
     (case resp_round drand_resp of
        None \<Rightarrow> Inl (KeyError ''round'')
      | Some round_num \<Rightarrow>
     (case resp_randomness drand_resp of
        None \<Rightarrow> Inl (KeyError ''randomness'')
      | Some rh \<Rightarrow>
     and_then (unhexlify rh) (\<lambda>randomness.
     (case resp_signature drand_resp of
        None \<Rightarrow> Inl (KeyError ''signature'')
      | Some sh \<Rightarrow>
     and_then (unhexlify sh) (\<lambda>signature.
       if length randomness \<noteq> 32 then Inl (Exception ''Randomness is not 32 bytes'')
       else Inr \<lparr>pulse_round = round_num, pulse_randomness = randomness,
                 pulse_signature = signature\<rparr>)))))"

section \<open>PayloadEncoder\<close>

record pulses_payload =
  block_number :: int
  pulses :: "pulse list"
  public :: bytes

text \<open>The body of the \<open>for p in pulses_list\<close> loop, appending to \<open>encoded\<close>.\<close>

fun encode_pulses_loop :: "bytes \<Rightarrow> pulse list \<Rightarrow> error + bytes" where
  "encode_pulses_loop encoded [] = Inr encoded"
| "encode_pulses_loop encoded (p # ps) =
     and_then (to_bytes (pulse_round p) 8) (\<lambda>rb.
     and_then (encode_compact_u32 (int (length (pulse_randomness p)))) (\<lambda>rl.
     and_then (encode_compact_u32 (int (length (pulse_signature p)))) (\<lambda>sl.
       encode_pulses_loop
         (encoded @ rb @ rl @ pulse_randomness p @ sl @ pulse_signature p) ps)))"

definition encode_pulses_payload :: "pulses_payload \<Rightarrow> error + bytes" where
  "encode_pulses_payload pulses_payload =
     and_then (to_bytes (block_number pulses_payload) 4) (\<lambda>bn.
     and_then (encode_compact_u32 (int (length (pulses pulses_payload)))) (\<lambda>cnt.
     and_then (encode_pulses_loop (bn @ cnt) (pulses pulses_payload)) (\<lambda>encoded.
       Inr (encoded @ [1] @ public pulses_payload))))"

text \<open>The layout of \<section>4.4 written out, with the compact prefixes as the table of
  \<section>4.1 gives them (for values below \<open>2 ^ 38\<close>).\<close>

definition compact_bytes :: "int \<Rightarrow> bytes" where
  "compact_bytes v =
     (if v < 64 then le_bytes 1 (4 * v)
      else if v < 16384 then le_bytes 2 (4 * v + 1)
      else if v < 1073741824 then le_bytes 4 (4 * v + 2)
      else le_bytes 5 (4 * v + 3))"

definition pulse_layout :: "pulse \<Rightarrow> bytes" where
  "pulse_layout p =
     le_bytes 8 (pulse_round p)
     @ compact_bytes (int (length (pulse_randomness p))) @ pulse_randomness p
     @ compact_bytes (int (length (pulse_signature p))) @ pulse_signature p"

definition payload_layout :: "pulses_payload \<Rightarrow> bytes" where
  "payload_layout pp =
     le_bytes 4 (block_number pp)
     @ compact_bytes (int (length (pulses pp)))
     @ concat (map pulse_layout (pulses pp))
     @ [1]
     @ public pp"

section \<open>The world outside: beacon endpoints, clock, chain node\<close>

text \<open>
  One \<open>requests.get\<close> either raises a \<open>RequestException\<close> or returns a response with a
  status code and a body (the value of \<open>response.json()\<close>). A body that is no JSON
  object of this shape is not modelled as a response: where \<open>json()\<close> raises inside
  the \<open>try\<close>, the attempt counts as a \<open>RequestException\<close>.
\<close>

datatype http_outcome = RequestException | Response int drand_resp

text \<open>The storage values \<open>substrate.query(...).value\<close> reads; \<open>None\<close> when unset.\<close>

record chain_state =
  NextUnsignedAt :: "int option"
  LastStoredRound :: "int option"

text \<open>The parameters of the \<open>write_pulse\<close> call.\<close>

record call_pulse =
  call_round :: int
  call_randomness :: string
  call_signature :: string

record write_pulse_call =
  call_block_number :: int
  call_pulses :: "call_pulse list"
  call_public :: string
  call_payload_signature :: string

text \<open>
  The mutable world: the clock (\<open>time.time()\<close>, in milliseconds), the URIs requested so
  far (oldest first), the chain's storage and the extrinsics submitted so far. The clock
  advances by the time each request takes; the chain's storage changes only when the
  node answers an extrinsic.
\<close>

record world =
  now :: nat
  requests :: "string list"
  chain :: chain_state
  extrinsics :: "write_pulse_call list"

text \<open>
  What the program does not decide: how an endpoint answers a request in a given world
  and how long that takes, the key pair, and how the node answers an extrinsic (the
  receipt's \<open>is_success\<close> and the storage afterwards).
\<close>

record env =
  http :: "world \<Rightarrow> string \<Rightarrow> http_outcome \<times> nat"
  public_key :: bytes
  sign :: "bytes \<Rightarrow> bytes"
  node :: "write_pulse_call \<Rightarrow> chain_state \<Rightarrow> bool \<times> chain_state"

definition CHAIN_HASH :: string where
  "CHAIN_HASH = ''52db9ba70e0cc0f6eaf7803dd07447a1f5477735fd3f661792ba94600c84e971''"

definition DRAND_ENDPOINTS :: "string list" where
  "DRAND_ENDPOINTS =
     [''https://api.drand.sh'',
      ''https://api2.drand.sh'',
      ''https://api3.drand.sh'',
      ''https://drand.cloudflare.com'',
      ''https://api.drand.secureweb3.com:6875'']"

definition HTTP_FETCH_TIMEOUT :: nat where
  "HTTP_FETCH_TIMEOUT = 10000"

definition MAX_PULSES_TO_FETCH :: int where
  "MAX_PULSES_TO_FETCH = 50"

section \<open>EndpointFetcher\<close>

definition requests_get :: "env \<Rightarrow> string \<Rightarrow> world \<Rightarrow> http_outcome \<times> world" where
  "requests_get e uri w =
     (case http e w uri of
        (out, elapsed) \<Rightarrow> (out, w\<lparr>now := now w + elapsed, requests := requests w @ [uri]\<rparr>))"

definition no_valid_response :: error where
  "no_valid_response = Exception ''No valid response from any Drand endpoint''"

text \<open>
  The \<open>for endpoint in DRAND_ENDPOINTS\<close> loop over the endpoints still to try. A
  response with status 200 returns its body; after any other attempt the clock is read,
  and past the deadline the loop breaks to the \<open>raise\<close> below it.
\<close>

fun fetch_loop ::
  "env \<Rightarrow> nat \<Rightarrow> string \<Rightarrow> string list \<Rightarrow> world \<Rightarrow> (error + drand_resp) \<times> world" where
  "fetch_loop e deadline relative_path [] w = (Inl no_valid_response, w)"
| "fetch_loop e deadline relative_path (endpoint # rest) w =
     (case requests_get e (endpoint @ relative_path) w of
        (Response status_code body, w') \<Rightarrow>
          if status_code = 200 then (Inr body, w')
          else if deadline < now w' then (Inl no_valid_response, w')
          else fetch_loop e deadline relative_path rest w'
      | (RequestException, w') \<Rightarrow>
          if deadline < now w' then (Inl no_valid_response, w')
          else fetch_loop e deadline relative_path rest w')"

definition fetch_from_any_endpoint ::
  "env \<Rightarrow> string \<Rightarrow> world \<Rightarrow> (error + drand_resp) \<times> world" where
  "fetch_from_any_endpoint e relative_path w =
     fetch_loop e (now w + HTTP_FETCH_TIMEOUT) relative_path DRAND_ENDPOINTS w"

text \<open>\<open>str\<close> of an integer, as the f-string formats the round number.\<close>

fun str_nat :: "nat \<Rightarrow> string" where
  "str_nat n =
     (if n < 10 then [char_of (48 + n)]
      else str_nat (n div 10) @ [char_of (48 + n mod 10)])"

declare str_nat.simps [simp del]

definition str_int :: "int \<Rightarrow> string" where
  "str_int i = (if i < 0 then CHR ''-'' # str_nat (nat (- i)) else str_nat (nat i))"

definition fetch_drand_by_round ::
  "env \<Rightarrow> int \<Rightarrow> world \<Rightarrow> (error + drand_resp) \<times> world" where
  "fetch_drand_by_round e round_num w =
     fetch_from_any_endpoint e (''/'' @ CHAIN_HASH @ ''/public/'' @ str_int round_num) w"

definition fetch_drand_latest :: "env \<Rightarrow> world \<Rightarrow> (error + drand_resp) \<times> world" where
  "fetch_drand_latest e w =
     fetch_from_any_endpoint e (''/'' @ CHAIN_HASH @ ''/public/latest'') w"

section \<open>SubmissionGate, Submitter and CycleDriver\<close>

text \<open>\<open>substrate.query(...).value or 0\<close>.\<close>

definition value_or_0 :: "int option \<Rightarrow> int" where
  "value_or_0 v = (case v of None \<Rightarrow> 0 | Some n \<Rightarrow> n)"

text \<open>\<open>bytes.hex()\<close>: two lower-case digits per byte.\<close>

definition hex :: "bytes \<Rightarrow> string" where
  "hex bs =
     concat (map (\<lambda>b. [''0123456789abcdef'' ! (unat b div 16),
                        ''0123456789abcdef'' ! (unat b mod 16)]) bs)"

text \<open>The loop \<open>for r in range(...)\<close>, appending each validated pulse to the list
  \<open>pulses\<close> (here \<open>fetched\<close>); a
  failed fetch or validation raises out of the loop.\<close>

fun fetch_pulses ::
  "env \<Rightarrow> int list \<Rightarrow> pulse list \<Rightarrow> world \<Rightarrow> (error + pulse list) \<times> world" where
  "fetch_pulses e [] fetched w = (Inr fetched, w)"
| "fetch_pulses e (r # rs) fetched w =
     (case fetch_drand_by_round e r w of
        (Inl err, w') \<Rightarrow> (Inl err, w')
      | (Inr resp, w') \<Rightarrow>
          (case try_into_pulse resp of
             Inl err \<Rightarrow> (Inl err, w')
           | Inr p \<Rightarrow> fetch_pulses e rs (fetched @ [p]) w'))"

text \<open>How one run of \<open>submit_new_pulses\<close> ends when it does not raise: the three early
  returns, or the submission with the payload it built, the bytes it signed and the
  receipt's \<open>is_success\<close>.\<close>

datatype outcome =
    BelowThreshold
  | NoNewRounds
  | NoNewPulses
  | Submitted pulses_payload bytes bool

definition pulses_for_call :: "pulse list \<Rightarrow> call_pulse list" where
  "pulses_for_call ps =
     map (\<lambda>p. \<lparr>call_round = pulse_round p,
                call_randomness = ''0x'' @ hex (pulse_randomness p),
                call_signature = ''0x'' @ hex (pulse_signature p)\<rparr>) ps"

definition submit_new_pulses :: "env \<Rightarrow> int \<Rightarrow> world \<Rightarrow> (error + outcome) \<times> world" where
  "submit_new_pulses e current_block w =
     (let next_unsigned_at = value_or_0 (NextUnsignedAt (chain w)) in
      if current_block < next_unsigned_at then (Inr BelowThreshold, w)
      else
        let last_stored_round = value_or_0 (LastStoredRound (chain w)) in
        case fetch_drand_latest e w of
          (Inl err, w1) \<Rightarrow> (Inl err, w1)
        | (Inr latest_resp, w1) \<Rightarrow>
        (case try_into_pulse latest_resp of
          Inl err \<Rightarrow> (Inl err, w1)
        | Inr latest_pulse \<Rightarrow>
          let current_round = pulse_round latest_pulse;
              last_stored_round =
                (if last_stored_round = 0 then current_round - 1 else last_stored_round)
          in
          if current_round \<le> last_stored_round then (Inr NoNewRounds, w1)
          else
            let rounds_to_fetch = min (current_round - last_stored_round) MAX_PULSES_TO_FETCH in
            case fetch_pulses e [last_stored_round + 1 .. last_stored_round + rounds_to_fetch] [] w1 of
              (Inl err, w2) \<Rightarrow> (Inl err, w2)
            | (Inr fetched, w2) \<Rightarrow>
              if fetched = [] then (Inr NoNewPulses, w2)
              else
                let public_bytes = public_key e;
                    payload = \<lparr>block_number = current_block, pulses = fetched,
                               public = public_bytes\<rparr>
                in
                case encode_pulses_payload payload of
                  Inl err \<Rightarrow> (Inl err, w2)
                | Inr encoded_payload \<Rightarrow>
                  let signature_bytes = sign e encoded_payload;
                      call = \<lparr>call_block_number = current_block,
                              call_pulses = pulses_for_call fetched,
                              call_public = ''0x'' @ hex public_bytes,
                              call_payload_signature = ''0x'' @ hex signature_bytes\<rparr>
                  in
                  case node e call (chain w2) of
                    (is_success, chain') \<Rightarrow>
                      (Inr (Submitted payload encoded_payload is_success),
                       w2\<lparr>chain := chain', extrinsics := extrinsics w2 @ [call]\<rparr>)))"

section \<open>Payloads the encoder accepts, and an example\<close>

text \<open>The fields fit their widths: the block number 32 bits, a round 64 bits, and every
  count and length the 5-byte compact form (below \<open>2 ^ 38\<close>).\<close>

definition pulse_fits :: "pulse \<Rightarrow> bool" where
  "pulse_fits p =
     (0 \<le> pulse_round p \<and> pulse_round p < 2 ^ 64
      \<and> int (length (pulse_randomness p)) < 2 ^ 38
      \<and> int (length (pulse_signature p)) < 2 ^ 38)"

definition payload_fits :: "pulses_payload \<Rightarrow> bool" where
  "payload_fits pp =
     (0 \<le> block_number pp \<and> block_number pp < 2 ^ 32
      \<and> int (length (pulses pp)) < 2 ^ 38
      \<and> list_all pulse_fits (pulses pp))"

definition example_payload :: pulses_payload where
  "example_payload =
     \<lparr>block_number = 258,
      pulses = [\<lparr>pulse_round = 10, pulse_randomness = [170, 187], pulse_signature = [1]\<rparr>,
                \<lparr>pulse_round = 11, pulse_randomness = [], pulse_signature = [2, 3]\<rparr>],
      public = [9, 8]\<rparr>"

section \<open>EndpointFetcher: attempts\<close>

text \<open>
  To state what a fetch did: whether an attempt failed (a transport error or a status
  other than 200), what each endpoint of a list answers when all are tried in order, one
  after the other, and the world after the first \<open>k\<close> of these attempts.
\<close>

definition failed :: "http_outcome \<Rightarrow> bool" where
  "failed out =
     (case out of RequestException \<Rightarrow> True | Response status_code body \<Rightarrow> status_code \<noteq> 200)"

fun attempts :: "env \<Rightarrow> string \<Rightarrow> string list \<Rightarrow> world \<Rightarrow> (http_outcome \<times> world) list" where
  "attempts e relative_path [] w = []"
| "attempts e relative_path (endpoint # rest) w =
     (case requests_get e (endpoint @ relative_path) w of
        (out, w') \<Rightarrow> (out, w') # attempts e relative_path rest w')"

definition world_after :: "env \<Rightarrow> string \<Rightarrow> string list \<Rightarrow> world \<Rightarrow> nat \<Rightarrow> world" where
  "world_after e relative_path eps w k =
     (if k = 0 then w else snd (attempts e relative_path eps w ! (k - 1)))"

section \<open>Example responses, worlds and beacons\<close>

text \<open>A well-formed response for round \<open>r\<close>, the pulse it validates to, and a world
  with a given \<open>LastStoredRound\<close>.\<close>

definition example_resp :: "int \<Rightarrow> drand_resp" where
  "example_resp r =
     \<lparr>resp_round = Some r,
      resp_randomness =
        Some ''000102030405060708090a0b0c0d0e0f101112131415161718191A1B1C1D1E1F'',
      resp_signature = Some ''beef''\<rparr>"

definition example_pulse :: "int \<Rightarrow> pulse" where
  "example_pulse r =
     \<lparr>pulse_round = r,
      pulse_randomness = map of_nat [0 ..< 32],
      pulse_signature = [190, 239]\<rparr>"

definition example_world :: "int option \<Rightarrow> world" where
  "example_world stored =
     \<lparr>now = 0, requests = [],
      chain = \<lparr>NextUnsignedAt = None, LastStoredRound = stored\<rparr>,
      extrinsics = []\<rparr>"

text \<open>A beacon whose every endpoint answers every request at once with round 7.\<close>

definition stuck_beacon :: env where
  "stuck_beacon =
     \<lparr>http = (\<lambda>w uri. (Response 200 (example_resp 7), 1)),
      public_key = [9, 8],
      sign = (\<lambda>bs. [5]),
      node = (\<lambda>call st. (True, st\<lparr>LastStoredRound := Some 7\<rparr>))\<rparr>"


section \<open>CycleDriver: requests of a round, and more example beacons\<close>

text \<open>The URIs requested for round \<open>r\<close> when the first \<open>k\<close> endpoints are tried.\<close>

definition round_uris :: "int \<Rightarrow> nat \<Rightarrow> string list" where
  "round_uris r k =
     map (\<lambda>endpoint. endpoint @ ''/'' @ CHAIN_HASH @ ''/public/'' @ str_int r)
       (take k DRAND_ENDPOINTS)"

text \<open>A beacon whose first endpoint answers the request for round 6 with round 6 and
  every other request with round 7.\<close>

definition honest_beacon :: env where
  "honest_beacon =
     \<lparr>http = (\<lambda>w uri.
         if uri = ''https://api.drand.sh'' @ ''/'' @ CHAIN_HASH @ ''/public/6''
         then (Response 200 (example_resp 6), 1)
         else (Response 200 (example_resp 7), 1)),
      public_key = [9, 8],
      sign = (\<lambda>bs. [5]),
      node = (\<lambda>call st. (True, st\<lparr>LastStoredRound := Some 7\<rparr>))\<rparr>"



section \<open>Little-endian bytes\<close>

lemma and_then_Inl [simp]: "and_then (Inl e) f = Inl e"
  by (simp add: and_then_def)

lemma and_then_Inr [simp]: "and_then (Inr x) f = f x"
  by (simp add: and_then_def)

lemma and_then_eq_Inr:
  "(and_then r f = Inr y) = (\<exists>x. r = Inr x \<and> f x = Inr y)"
  by (cases r) simp_all

lemma length_le_bytes [simp]: "length (le_bytes n v) = n"
  by (induction n arbitrary: v) simp_all

lemma le_value_le_bytes: "le_value (le_bytes n v) = v mod 256 ^ n"
proof (induction n arbitrary: v)
  case 0
  show ?case by simp
next
  case (Suc n)
  have "uint (word_of_int v :: byte) = v mod 256"
    by (simp add: uint_word_of_int)
  moreover have "v mod (256 * 256 ^ n) = 256 * (v div 256 mod 256 ^ n) + v mod 256"
    by (rule zmod_zmult2_eq) simp
  ultimately show ?case
    using Suc.IH [of "v div 256"] by simp
qed

lemma le_value_le_bytes_id:
  "0 \<le> v \<Longrightarrow> v < 256 ^ n \<Longrightarrow> le_value (le_bytes n v) = v"
  by (simp add: le_value_le_bytes)

lemma to_bytes_Inr:
  "(to_bytes v n = Inr bs) = (0 \<le> v \<and> v < 256 ^ n \<and> bs = le_bytes n v)"
  by (auto simp: to_bytes_def)

lemma to_bytes_ok: "0 \<le> v \<Longrightarrow> v < 256 ^ n \<Longrightarrow> to_bytes v n = Inr (le_bytes n v)"
  by (simp add: to_bytes_def)


section \<open>The shifted and tagged value\<close>

lemma push_bit_2_int: "push_bit 2 v = 4 * (v::int)"
  by (simp add: push_bit_eq_mult)

lemma shift_tag_1: "push_bit 2 v OR 1 = 4 * v + (1::int)"
  by (simp add: push_bit_2_int or_one_eq)

lemma shift_tag_2: "push_bit 2 v OR 2 = 4 * v + (2::int)"
proof -
  have "4 * v OR 2 = 2 * (2 * v OR 1)"
    by (subst or_int_rec) simp
  then show ?thesis by (simp add: push_bit_2_int or_one_eq)
qed

lemma shift_tag_3: "push_bit 2 v OR 3 = 4 * v + (3::int)"
proof -
  have "4 * v OR 3 = 1 + 2 * (2 * v OR 1)"
    by (subst or_int_rec) simp
  then show ?thesis by (simp add: push_bit_2_int or_one_eq)
qed

lemma shift_mask: "push_bit 2 v AND 255 = (4 * (v::int)) mod 256"
  using take_bit_eq_mask [of 8 "4 * v"]
  by (simp add: push_bit_2_int mask_eq_exp_minus_1 take_bit_eq_mod)

section \<open>CompactEncoder: tiers and failures\<close>

lemma compact_low: "0 \<le> v \<Longrightarrow> v < 64 \<Longrightarrow> encode_compact_u32 v = Inr (le_bytes 1 (4 * v))"
  by (simp add: encode_compact_u32_def shift_mask to_bytes_def)

lemma compact_neg: "v < 0 \<Longrightarrow> encode_compact_u32 v = Inr (le_bytes 1 (4 * v mod 256))"
proof -
  assume "v < 0"
  have "0 \<le> 4 * v mod 256" "4 * v mod 256 < 256" by simp_all
  then have "to_bytes (4 * v mod 256) 1 = Inr (le_bytes 1 (4 * v mod 256))"
    by (intro to_bytes_ok) simp_all
  with \<open>v < 0\<close> show ?thesis
    by (simp add: encode_compact_u32_def shift_mask)
qed

lemma compact_2: "64 \<le> v \<Longrightarrow> v < 16384 \<Longrightarrow> encode_compact_u32 v = Inr (le_bytes 2 (4 * v + 1))"
  by (simp add: encode_compact_u32_def shift_tag_1 to_bytes_def)

lemma compact_4: "16384 \<le> v \<Longrightarrow> v < 1073741824 \<Longrightarrow> encode_compact_u32 v = Inr (le_bytes 4 (4 * v + 2))"
  by (simp add: encode_compact_u32_def shift_tag_2 to_bytes_def)

lemma compact_5: "1073741824 \<le> v \<Longrightarrow> v < 274877906944 \<Longrightarrow> encode_compact_u32 v = Inr (le_bytes 5 (4 * v + 3))"
  by (simp add: encode_compact_u32_def shift_tag_3 to_bytes_def)

lemma compact_over: "274877906944 \<le> v \<Longrightarrow> encode_compact_u32 v = Inl OverflowError"
  by (simp add: encode_compact_u32_def shift_tag_3 to_bytes_def)

lemma compact_ok: "0 \<le> v \<Longrightarrow> v < 274877906944 \<Longrightarrow> encode_compact_u32 v = Inr (compact_bytes v)"
  by (simp add: compact_bytes_def compact_low compact_2 compact_4 compact_5)

lemma uint_and_3: "uint (word_of_int x :: byte) AND 3 = x mod 4"
proof -
  have "uint (word_of_int x :: byte) AND 3 = take_bit 2 (x mod 256)"
    using take_bit_eq_mask [of 2 "x mod 256"]
    by (simp only: uint_word_of_int mask_eq_exp_minus_1) simp
  also have "\<dots> = x mod 256 mod 4" by (simp add: take_bit_eq_mod)
  also have "\<dots> = x mod 4" by (simp add: mod_mod_cancel)
  finally show ?thesis .
qed

lemma hd_le_bytes: "hd (le_bytes (Suc n) x) = word_of_int x"
  by simp

lemma compact_tier_le_bytes:
  assumes "0 \<le> v" and "4 * v + t < 256 ^ Suc n" and "0 \<le> t" and "t < 4"
    and "push_bit 2 v OR t = 4 * v + t"
  shows "compact_tier v (Suc n) t (le_bytes (Suc n) (4 * v + t))"
proof -
  have "le_value (le_bytes (Suc n) (4 * v + t)) = 4 * v + t"
    using assms by (intro le_value_le_bytes_id) simp_all
  moreover have "(4 * v + t) mod 4 = t"
    using assms by simp
  then have "uint (hd (le_bytes (Suc n) (4 * v + t))) AND 3 = t"
    by (simp only: hd_le_bytes uint_and_3)
  ultimately show ?thesis
    using assms by (simp only: compact_tier_def length_le_bytes)
qed

text \<open>
  Claim C3, as the code has it. For a non-negative \<open>value\<close> below \<open>2 ^ 38\<close> the tier
  is chosen by magnitude as in the table of \<section>4.1: \<open>[0, 64)\<close> gives 1 byte with tag
  \<open>0b00\<close>, \<open>[64, 16384)\<close> 2 bytes with tag \<open>0b01\<close>, \<open>[16384, 2 ^ 30)\<close> 4 bytes with
  tag \<open>0b10\<close>, \<open>[2 ^ 30, 2 ^ 38)\<close> 5 bytes with tag \<open>0b11\<close>; each output is
  \<open>(value << 2) | tag\<close> written little-endian, and its two low bits are the tag. From
  \<open>2 ^ 38\<close> on, the shifted value no longer fits 5 bytes and \<open>to_bytes\<close> raises
  \<open>OverflowError\<close>.
\<close>

theorem encode_compact_u32_tiers:
  "(0 \<le> v \<and> v < 64 \<longrightarrow>
      (\<exists>bs. encode_compact_u32 v = Inr bs \<and> compact_tier v 1 0 bs))
   \<and> (64 \<le> v \<and> v < 16384 \<longrightarrow>
      (\<exists>bs. encode_compact_u32 v = Inr bs \<and> compact_tier v 2 1 bs))
   \<and> (16384 \<le> v \<and> v < 1073741824 \<longrightarrow>
      (\<exists>bs. encode_compact_u32 v = Inr bs \<and> compact_tier v 4 2 bs))
   \<and> (1073741824 \<le> v \<and> v < 274877906944 \<longrightarrow>
      (\<exists>bs. encode_compact_u32 v = Inr bs \<and> compact_tier v 5 3 bs))
   \<and> (274877906944 \<le> v \<longrightarrow> encode_compact_u32 v = Inl OverflowError)"
proof (intro conjI impI)
  assume a: "0 \<le> v \<and> v < 64"
  then have "compact_tier v (Suc 0) 0 (le_bytes (Suc 0) (4 * v + 0))"
    by (intro compact_tier_le_bytes) (simp_all add: push_bit_2_int)
  with a show "\<exists>bs. encode_compact_u32 v = Inr bs \<and> compact_tier v 1 0 bs"
    by (simp add: compact_low del: le_bytes.simps)
next
  assume a: "64 \<le> v \<and> v < 16384"
  then have "compact_tier v (Suc 1) 1 (le_bytes (Suc 1) (4 * v + 1))"
    by (intro compact_tier_le_bytes) (simp_all add: shift_tag_1)
  moreover have "Suc 1 = 2" by simp
  ultimately have "compact_tier v 2 1 (le_bytes 2 (4 * v + 1))"
    by (simp only:)
  with a show "\<exists>bs. encode_compact_u32 v = Inr bs \<and> compact_tier v 2 1 bs"
    by (simp add: compact_2)
next
  assume a: "16384 \<le> v \<and> v < 1073741824"
  then have "compact_tier v (Suc 3) 2 (le_bytes (Suc 3) (4 * v + 2))"
    by (intro compact_tier_le_bytes) (simp_all add: shift_tag_2)
  moreover have "Suc 3 = 4" by simp
  ultimately have "compact_tier v 4 2 (le_bytes 4 (4 * v + 2))"
    by (simp only:)
  with a show "\<exists>bs. encode_compact_u32 v = Inr bs \<and> compact_tier v 4 2 bs"
    by (simp add: compact_4)
next
  assume a: "1073741824 \<le> v \<and> v < 274877906944"
  then have "compact_tier v (Suc 4) 3 (le_bytes (Suc 4) (4 * v + 3))"
    by (intro compact_tier_le_bytes) (simp_all add: shift_tag_3)
  moreover have "Suc 4 = 5" by simp
  ultimately have "compact_tier v 5 3 (le_bytes 5 (4 * v + 3))"
    by (simp only:)
  with a show "\<exists>bs. encode_compact_u32 v = Inr bs \<and> compact_tier v 5 3 bs"
    by (simp add: compact_5)
next
  assume "274877906944 \<le> v"
  then show "encode_compact_u32 v = Inl OverflowError" by (rule compact_over)
qed

text \<open>The tier boundaries 0, 63, 64, 16383, 16384, 1073741823, 1073741824 of the
  table, and the first value that overflows.\<close>

theorem encode_compact_u32_tiers_witness:
  "(\<exists>bs. encode_compact_u32 0 = Inr bs \<and> compact_tier 0 1 0 bs)
   \<and> (\<exists>bs. encode_compact_u32 63 = Inr bs \<and> compact_tier 63 1 0 bs)
   \<and> (\<exists>bs. encode_compact_u32 64 = Inr bs \<and> compact_tier 64 2 1 bs)
   \<and> (\<exists>bs. encode_compact_u32 16383 = Inr bs \<and> compact_tier 16383 2 1 bs)
   \<and> (\<exists>bs. encode_compact_u32 16384 = Inr bs \<and> compact_tier 16384 4 2 bs)
   \<and> (\<exists>bs. encode_compact_u32 1073741823 = Inr bs \<and> compact_tier 1073741823 4 2 bs)
   \<and> (\<exists>bs. encode_compact_u32 1073741824 = Inr bs \<and> compact_tier 1073741824 5 3 bs)
   \<and> encode_compact_u32 274877906944 = Inl OverflowError"
  using encode_compact_u32_tiers [of 0] encode_compact_u32_tiers [of 63]
    encode_compact_u32_tiers [of 64] encode_compact_u32_tiers [of 16383]
    encode_compact_u32_tiers [of 16384] encode_compact_u32_tiers [of 1073741823]
    encode_compact_u32_tiers [of 1073741824] encode_compact_u32_tiers [of 274877906944]
  by simp

text \<open>Claim C3 as stated fails at \<open>2 ^ 38\<close>: a value of the last tier with no
  5-byte output.\<close>

theorem encode_compact_u32_beyond_5_bytes:
  "encode_compact_u32 (2 ^ 38) = Inl OverflowError
   \<and> \<not> (\<exists>bs. encode_compact_u32 (2 ^ 38) = Inr bs \<and> length bs = 5)"
  by (simp add: compact_over)

text \<open>
  Claim C4, as the code has it. \<open>encode_compact_u32\<close> raises exactly when
  \<open>value \<ge> 2 ^ 38\<close>, and then \<open>OverflowError\<close>; it returns bytes on every integer
  below \<open>2 ^ 38\<close>. A negative value is not rejected: it takes the first branch and
  yields the single byte \<open>(value << 2) & 0xFF\<close>.
\<close>

theorem encode_compact_u32_failure:
  "((encode_compact_u32 v = Inl err) = (274877906944 \<le> v \<and> err = OverflowError))
   \<and> ((\<exists>bs. encode_compact_u32 v = Inr bs) = (v < 274877906944))
   \<and> (v < 0 \<longrightarrow> encode_compact_u32 v = Inr [word_of_int (push_bit 2 v AND 255)])"
proof -
  consider "v < 0" | "0 \<le> v" "v < 274877906944" | "274877906944 \<le> v" by linarith
  then show ?thesis
  proof cases
    case 1
    then show ?thesis by (auto simp: compact_neg shift_mask)
  next
    case 2
    then show ?thesis by (auto simp: compact_ok)
  next
    case 3
    then show ?thesis by (auto simp: compact_over)
  qed
qed

theorem encode_compact_u32_failure_witness:
  "encode_compact_u32 (- 100) = Inr [112]
   \<and> (\<exists>bs. encode_compact_u32 5 = Inr bs)
   \<and> encode_compact_u32 274877906945 = Inl OverflowError"
  using encode_compact_u32_failure [of "- 100"] encode_compact_u32_failure [of 5]
    encode_compact_u32_failure [of 274877906945 OverflowError]
  by simp

text \<open>Claim C4 as stated fails both ways: \<open>-1\<close> is encoded, and the non-negative
  \<open>2 ^ 40\<close> raises.\<close>

theorem encode_compact_u32_negative_and_huge:
  "encode_compact_u32 (- 1) = Inr [252]
   \<and> encode_compact_u32 (2 ^ 40) = Inl OverflowError"
  by (simp add: compact_neg compact_over)

section \<open>PayloadEncoder: layout and injectivity\<close>

lemma compact_Inr:
  "0 \<le> v \<Longrightarrow> (encode_compact_u32 v = Inr bs) = (v < 2 ^ 38 \<and> bs = compact_bytes v)"
  using compact_ok [of v] compact_over [of v] by (cases "v < 274877906944") auto

lemma compact_len_Inr:
  "(encode_compact_u32 (int n) = Inr bs) = (int n < 2 ^ 38 \<and> bs = compact_bytes (int n))"
  by (rule compact_Inr) simp

lemma to_bytes_8_Inr:
  "(to_bytes v 8 = Inr bs) = (0 \<le> v \<and> v < 2 ^ 64 \<and> bs = le_bytes 8 v)"
  by (simp add: to_bytes_Inr)

lemma to_bytes_4_Inr:
  "(to_bytes v 4 = Inr bs) = (0 \<le> v \<and> v < 2 ^ 32 \<and> bs = le_bytes 4 v)"
  by (simp add: to_bytes_Inr)

lemma encode_pulses_loop_Inr:
  "(encode_pulses_loop acc ps = Inr bs) =
     (list_all pulse_fits ps \<and> bs = acc @ concat (map pulse_layout ps))"
proof (induction ps arbitrary: acc)
  case Nil
  show ?case by auto
next
  case (Cons p ps)
  show ?case
    by (auto simp: and_then_eq_Inr Cons.IH to_bytes_8_Inr compact_len_Inr
        pulse_fits_def pulse_layout_def simp del: le_bytes.simps)
qed

lemma encode_pulses_payload_Inr:
  "(encode_pulses_payload pp = Inr bs) = (payload_fits pp \<and> bs = payload_layout pp)"
  by (auto simp: encode_pulses_payload_def and_then_eq_Inr to_bytes_4_Inr compact_len_Inr
      encode_pulses_loop_Inr payload_fits_def payload_layout_def simp del: le_bytes.simps)











text \<open>
  Claim C1, as the code has it. For a payload whose block number fits 32 bits, whose
  rounds fit 64 bits, and whose pulse count and byte-field lengths are below \<open>2 ^ 38\<close>,
  \<open>encode_pulses_payload\<close> returns exactly: the block number as 4 little-endian
  bytes, the compact pulse count, then per pulse in order the round as 8 little-endian
  bytes, the compact length of \<open>randomness\<close> and its bytes, the compact length of
  \<open>signature\<close> and its bytes, then the byte \<open>0x01\<close> and the public key.
\<close>

theorem encode_pulses_payload_layout:
  assumes "0 \<le> block_number pp" and "block_number pp < 2 ^ 32"
    and "\<forall>p \<in> set (pulses pp). 0 \<le> pulse_round p \<and> pulse_round p < 2 ^ 64
            \<and> int (length (pulse_randomness p)) < 2 ^ 38
            \<and> int (length (pulse_signature p)) < 2 ^ 38"
    and "int (length (pulses pp)) < 2 ^ 38"
  shows "encode_pulses_payload pp =
           Inr (le_bytes 4 (block_number pp)
                @ compact_bytes (int (length (pulses pp)))
                @ concat (map (\<lambda>p. le_bytes 8 (pulse_round p)
                     @ compact_bytes (int (length (pulse_randomness p))) @ pulse_randomness p
                     @ compact_bytes (int (length (pulse_signature p))) @ pulse_signature p)
                    (pulses pp))
                @ [1]
                @ public pp)"
proof -
  from assms have "payload_fits pp"
    by (simp add: payload_fits_def pulse_fits_def list_all_iff)
  then have "encode_pulses_payload pp = Inr (payload_layout pp)"
    by (simp add: encode_pulses_payload_Inr)
  moreover have "pulse_layout = (\<lambda>p. le_bytes 8 (pulse_round p)
                     @ compact_bytes (int (length (pulse_randomness p))) @ pulse_randomness p
                     @ compact_bytes (int (length (pulse_signature p))) @ pulse_signature p)"
    by (rule ext) (simp only: pulse_layout_def)
  ultimately show ?thesis
    by (simp only: payload_layout_def)
qed

lemma le_bytes_numeral:
  "le_bytes (numeral k) v = word_of_int v # le_bytes (pred_numeral k) (v div 256)"
  by (simp add: numeral_eq_Suc)


theorem encode_pulses_payload_layout_witness:
  "encode_pulses_payload example_payload =
     Inr ([2, 1, 0, 0] @ [8]
          @ ([10, 0, 0, 0, 0, 0, 0, 0] @ [8] @ [170, 187] @ [4] @ [1])
          @ ([11, 0, 0, 0, 0, 0, 0, 0] @ [0] @ [] @ [8] @ [2, 3])
          @ [1] @ [9, 8])"
proof -
  have "0 \<le> block_number example_payload" "block_number example_payload < 2 ^ 32"
    "\<forall>p \<in> set (pulses example_payload). 0 \<le> pulse_round p \<and> pulse_round p < 2 ^ 64
            \<and> int (length (pulse_randomness p)) < 2 ^ 38
            \<and> int (length (pulse_signature p)) < 2 ^ 38"
    "int (length (pulses example_payload)) < 2 ^ 38"
    by (simp_all add: example_payload_def)
  from encode_pulses_payload_layout [OF this] show ?thesis
    by (simp add: example_payload_def compact_bytes_def le_bytes_numeral)
qed

text \<open>A byte field of \<open>2 ^ 38\<close> bytes has no compact length prefix: the encoder
  raises.\<close>

lemma encode_long_signature:
  assumes "length sg = 274877906944"
  shows "encode_pulses_payload
           \<lparr>block_number = 0,
            pulses = [\<lparr>pulse_round = 0, pulse_randomness = [], pulse_signature = sg\<rparr>],
            public = []\<rparr> = Inl OverflowError"
proof -
  have "encode_compact_u32 (int (length sg)) = Inl OverflowError"
    using assms by (intro compact_over) simp
  moreover have "to_bytes 0 4 = Inr (le_bytes 4 0)" "to_bytes 0 8 = Inr (le_bytes 8 0)"
    by (simp_all add: to_bytes_ok)
  moreover have "encode_compact_u32 1 = Inr (compact_bytes 1)" "encode_compact_u32 0 = Inr (compact_bytes 0)"
    by (simp_all add: compact_ok)
  ultimately show ?thesis
    by (simp add: encode_pulses_payload_def del: le_bytes.simps)
qed

text \<open>Claim C1 as stated (byte fields arbitrary) fails on a signature of \<open>2 ^ 38\<close>
  zero bytes.\<close>

theorem encode_pulses_payload_long_field:
  "encode_pulses_payload
     \<lparr>block_number = 0,
      pulses = [\<lparr>pulse_round = 0, pulse_randomness = [],
                 pulse_signature = replicate 274877906944 0\<rparr>],
      public = []\<rparr> = Inl OverflowError"
  by (rule encode_long_signature) (rule length_replicate)








section \<open>PulseValidator\<close>

lemma try_into_pulse_Inr:
  "(try_into_pulse resp = Inr p) =
     (\<exists>round_num rh sh rb sb.
        resp_round resp = Some round_num \<and>
        resp_randomness resp = Some rh \<and> unhexlify rh = Inr rb \<and>
        resp_signature resp = Some sh \<and> unhexlify sh = Inr sb \<and>
        length rb = 32 \<and>
        p = \<lparr>pulse_round = round_num, pulse_randomness = rb, pulse_signature = sb\<rparr>)"
  by (auto simp: try_into_pulse_def and_then_eq_Inr split: option.splits if_splits)

lemma try_into_pulse_example [simp]: "try_into_pulse (example_resp r) = Inr (example_pulse r)"
  by (simp add: try_into_pulse_def example_resp_def example_pulse_def unhexlify_def hex_digit_def
      upt_rec)

text \<open>
  Claim C5, as the code has it. \<open>try_into_pulse\<close> fails exactly when a required field
  (\<open>round\<close>, \<open>randomness\<close>, \<open>signature\<close>) is absent, when \<open>randomness\<close> or
  \<open>signature\<close> is not a hexadecimal string, or when \<open>randomness\<close> decodes to
  anything other than 32 bytes. The value of \<open>round\<close> is not examined. On a response
  that passes, the pulse carries the round and the two decoded fields unchanged.
\<close>

theorem try_into_pulse_validation:
  "((\<exists>err. try_into_pulse resp = Inl err) =
      (resp_round resp = None \<or> resp_randomness resp = None \<or> resp_signature resp = None
       \<or> (\<exists>rh err. resp_randomness resp = Some rh \<and> unhexlify rh = Inl err)
       \<or> (\<exists>sh err. resp_signature resp = Some sh \<and> unhexlify sh = Inl err)
       \<or> (\<exists>rh rb. resp_randomness resp = Some rh \<and> unhexlify rh = Inr rb \<and> length rb \<noteq> 32)))
   \<and> (resp_round resp = Some round_num
        \<and> resp_randomness resp = Some rh \<and> unhexlify rh = Inr rb \<and> length rb = 32
        \<and> resp_signature resp = Some sh \<and> unhexlify sh = Inr sb
      \<longrightarrow> try_into_pulse resp =
            Inr \<lparr>pulse_round = round_num, pulse_randomness = rb, pulse_signature = sb\<rparr>)"
proof (intro conjI impI)
  show "(\<exists>err. try_into_pulse resp = Inl err) =
      (resp_round resp = None \<or> resp_randomness resp = None \<or> resp_signature resp = None
       \<or> (\<exists>rh err. resp_randomness resp = Some rh \<and> unhexlify rh = Inl err)
       \<or> (\<exists>sh err. resp_signature resp = Some sh \<and> unhexlify sh = Inl err)
       \<or> (\<exists>rh rb. resp_randomness resp = Some rh \<and> unhexlify rh = Inr rb \<and> length rb \<noteq> 32))"
    by (auto simp: try_into_pulse_def and_then_def split: option.splits sum.splits)
next
  assume "resp_round resp = Some round_num
        \<and> resp_randomness resp = Some rh \<and> unhexlify rh = Inr rb \<and> length rb = 32
        \<and> resp_signature resp = Some sh \<and> unhexlify sh = Inr sb"
  then show "try_into_pulse resp =
            Inr \<lparr>pulse_round = round_num, pulse_randomness = rb, pulse_signature = sb\<rparr>"
    by (simp add: try_into_pulse_Inr)
qed

theorem try_into_pulse_validation_witness:
  "try_into_pulse (example_resp 10) = Inr (example_pulse 10)
   \<and> (\<exists>err. try_into_pulse ((example_resp 10)\<lparr>resp_randomness := Some ''00ff''\<rparr>) = Inl err)
   \<and> (\<exists>err. try_into_pulse ((example_resp 10)\<lparr>resp_signature := None\<rparr>) = Inl err)"
proof -
  have h: "unhexlify ''000102030405060708090a0b0c0d0e0f101112131415161718191A1B1C1D1E1F''
             = Inr (pulse_randomness (example_pulse 10))"
    "unhexlify ''beef'' = Inr [190, 239]" "unhexlify ''00ff'' = Inr [0, 255]"
    by (simp_all add: unhexlify_def hex_digit_def example_pulse_def upt_rec)
  have l: "length (pulse_randomness (example_pulse 10)) = 32"
    by (simp add: example_pulse_def)
  from try_into_pulse_validation
    [of "example_resp 10" 10
      "''000102030405060708090a0b0c0d0e0f101112131415161718191A1B1C1D1E1F''"
      "pulse_randomness (example_pulse 10)" "''beef''" "[190, 239]"]
  have 1: "try_into_pulse (example_resp 10) = Inr (example_pulse 10)"
    using h l by (simp add: example_resp_def example_pulse_def)
  from try_into_pulse_validation
    [of "(example_resp 10)\<lparr>resp_randomness := Some ''00ff''\<rparr>"]
  have 2: "\<exists>err. try_into_pulse ((example_resp 10)\<lparr>resp_randomness := Some ''00ff''\<rparr>) = Inl err"
    using h by (simp add: example_resp_def)
  from try_into_pulse_validation [of "(example_resp 10)\<lparr>resp_signature := None\<rparr>"]
  have 3: "\<exists>err. try_into_pulse ((example_resp 10)\<lparr>resp_signature := None\<rparr>) = Inl err"
    by (simp add: example_resp_def)
  from 1 2 3 show ?thesis by simp
qed

text \<open>Claim C5 as stated fails for a malformed round: \<open>-1\<close> and \<open>2 ^ 64\<close> are no
  unsigned 64-bit rounds (they cannot even be encoded), yet validation accepts them.\<close>

theorem try_into_pulse_accepts_any_round:
  "try_into_pulse (example_resp (- 1)) = Inr (example_pulse (- 1))
   \<and> pulse_round (example_pulse (- 1)) < 0
   \<and> to_bytes (pulse_round (example_pulse (- 1))) 8 = Inl OverflowError
   \<and> try_into_pulse (example_resp (2 ^ 64)) = Inr (example_pulse (2 ^ 64))
   \<and> to_bytes (pulse_round (example_pulse (2 ^ 64))) 8 = Inl OverflowError"
  by (simp add: example_pulse_def to_bytes_def)

lemma fetch_pulses_single:
  assumes "fetch_drand_by_round e r w = (Inr resp, w')" and "try_into_pulse resp = Inr p"
  shows "fetch_pulses e [r] fetched w = (Inr (fetched @ [p]), w')"
  using assms by simp

text \<open>
  Claim C10. On a response whose hexadecimal fields decode and whose randomness is 32
  bytes, \<open>try_into_pulse\<close> returns the pulse with the response's own round; and
  whatever round \<open>r\<close> was requested, the pulse the fetch loop appends for it carries
  the round of the response, with no comparison to \<open>r\<close>.
\<close>

theorem round_taken_from_response:
  assumes "resp_round resp = Some rho"
    and "resp_randomness resp = Some rh" and "unhexlify rh = Inr rb" and "length rb = 32"
    and "resp_signature resp = Some sh" and "unhexlify sh = Inr sb"
  shows "try_into_pulse resp =
           Inr \<lparr>pulse_round = rho, pulse_randomness = rb, pulse_signature = sb\<rparr>
       \<and> (fetch_drand_by_round e r w = (Inr resp, w') \<longrightarrow>
            fetch_pulses e [r] fetched w =
              (Inr (fetched @ [\<lparr>pulse_round = rho, pulse_randomness = rb,
                                 pulse_signature = sb\<rparr>]), w'))"
proof -
  from assms have t: "try_into_pulse resp =
           Inr \<lparr>pulse_round = rho, pulse_randomness = rb, pulse_signature = sb\<rparr>"
    by (simp add: try_into_pulse_Inr)
  then show ?thesis by (simp add: fetch_pulses_single)
qed

lemma stuck_beacon_by_round:
  "fst (fetch_drand_by_round stuck_beacon r w) = Inr (example_resp 7)"
  by (simp add: fetch_drand_by_round_def fetch_from_any_endpoint_def DRAND_ENDPOINTS_def
      requests_get_def stuck_beacon_def)

text \<open>Round 5 is requested, the beacon answers with round 7, and 7 enters the batch.\<close>

theorem round_taken_from_response_witness:
  "fst (fetch_pulses stuck_beacon [5] [] (example_world None))
     = Inr [\<lparr>pulse_round = 7, pulse_randomness = map of_nat [0 ..< 32],
              pulse_signature = [190, 239]\<rparr>]"
proof -
  have h: "unhexlify ''000102030405060708090a0b0c0d0e0f101112131415161718191A1B1C1D1E1F''
             = Inr (map of_nat [0 ..< 32])"
    "unhexlify ''beef'' = Inr [190, 239]"
    by (simp_all add: unhexlify_def hex_digit_def upt_rec)
  have f: "fetch_drand_by_round stuck_beacon 5 (example_world None)
        = (Inr (example_resp 7), snd (fetch_drand_by_round stuck_beacon 5 (example_world None)))"
    using stuck_beacon_by_round [of 5 "example_world None"]
    by (metis prod.collapse)
  from round_taken_from_response
    [of "example_resp 7" 7
      "''000102030405060708090a0b0c0d0e0f101112131415161718191A1B1C1D1E1F''"
      "map of_nat [0 ..< 32]" "''beef''" "[190, 239]" stuck_beacon 5 "example_world None"
      "snd (fetch_drand_by_round stuck_beacon 5 (example_world None))" "[]"]
  show ?thesis using h f by (simp add: example_resp_def del: fetch_pulses.simps)
qed

section \<open>EndpointFetcher: failover\<close>

lemma requests_get_requests:
  "requests_get e uri w = (out, w') \<Longrightarrow> requests w' = requests w @ [uri]"
  by (auto simp: requests_get_def split: prod.splits)

lemma requests_get_frame:
  "requests_get e uri w = (out, w') \<Longrightarrow> chain w' = chain w \<and> extrinsics w' = extrinsics w"
  by (auto simp: requests_get_def split: prod.splits)

lemma length_attempts [simp]: "length (attempts e p eps w) = length eps"
  by (induction eps arbitrary: w) (auto split: prod.splits)

lemma fetch_loop_step_fail:
  assumes "requests_get e (ep @ p) w = (out, w1)" and "failed out"
  shows "fetch_loop e d p (ep # rest) w =
           (if d < now w1 then (Inl no_valid_response, w1) else fetch_loop e d p rest w1)"
  using assms by (cases out) (simp_all add: failed_def)


lemma not_failed: "\<not> failed out \<Longrightarrow> \<exists>body. out = Response 200 body"
  by (cases out) (simp_all add: failed_def)

lemma fetch_loop_trace:
  assumes "fetch_loop e d p eps w = (res, w')"
  shows "\<exists>k\<le>length eps.
           w' = world_after e p eps w k
         \<and> requests w' = requests w @ map (\<lambda>ep. ep @ p) (take k eps)
         \<and> (\<forall>j. j + 1 < k \<longrightarrow>
               failed (fst (attempts e p eps w ! j)) \<and> \<not> d < now (snd (attempts e p eps w ! j)))
         \<and> (case res of
              Inr body \<Rightarrow> 0 < k \<and> fst (attempts e p eps w ! (k - 1)) = Response 200 body
            | Inl err \<Rightarrow> err = no_valid_response
                \<and> (0 < k \<longrightarrow> failed (fst (attempts e p eps w ! (k - 1))))
                \<and> (k = length eps \<or> d < now w'))"
  using assms
proof (induction eps arbitrary: w)
  case Nil
  then show ?case by (auto simp: world_after_def)
next
  case (Cons ep rest)
  obtain out w1 where g: "requests_get e (ep @ p) w = (out, w1)"
    by (cases "requests_get e (ep @ p) w")
  have rq: "requests w1 = requests w @ [ep @ p]"
    using g by (rule requests_get_requests)
  have a0: "attempts e p (ep # rest) w = (out, w1) # attempts e p rest w1"
    using g by simp
  show ?case
  proof (cases "failed out")
    case False
    then obtain body where "out = Response 200 body" using not_failed by blast
    with g Cons.prems have "res = Inr body" "w' = w1" by simp_all
    then show ?thesis
      using rq a0 \<open>out = Response 200 body\<close>
      by (intro exI [of _ 1]) (simp add: world_after_def)
  next
    case True
    show ?thesis
    proof (cases "d < now w1")
      case True
      with fetch_loop_step_fail [OF g \<open>failed out\<close>, of d rest] Cons.prems
      have "res = Inl no_valid_response" "w' = w1"
        by simp_all
      then show ?thesis
        using rq a0 \<open>failed out\<close> True
        by (intro exI [of _ 1]) (simp add: world_after_def)
    next
      case False
      with fetch_loop_step_fail [OF g \<open>failed out\<close>, of d rest] Cons.prems
      have "fetch_loop e d p rest w1 = (res, w')"
        by simp
      from Cons.IH [OF this] obtain k where k: "k \<le> length rest"
        "w' = world_after e p rest w1 k"
        "requests w' = requests w1 @ map (\<lambda>ep. ep @ p) (take k rest)"
        "\<forall>j. j + 1 < k \<longrightarrow>
               failed (fst (attempts e p rest w1 ! j)) \<and> \<not> d < now (snd (attempts e p rest w1 ! j))"
        "case res of
              Inr body \<Rightarrow> 0 < k \<and> fst (attempts e p rest w1 ! (k - 1)) = Response 200 body
            | Inl err \<Rightarrow> err = no_valid_response
                \<and> (0 < k \<longrightarrow> failed (fst (attempts e p rest w1 ! (k - 1))))
                \<and> (k = length rest \<or> d < now w')"
        by blast
      have 1: "w' = world_after e p (ep # rest) w (Suc k)"
        using k(2) a0 by (cases k) (simp_all add: world_after_def)
      have 2: "requests w' = requests w @ map (\<lambda>ep. ep @ p) (take (Suc k) (ep # rest))"
        using k(3) rq by simp
      have 3: "\<forall>j. j + 1 < Suc k \<longrightarrow>
               failed (fst (attempts e p (ep # rest) w ! j))
               \<and> \<not> d < now (snd (attempts e p (ep # rest) w ! j))"
      proof (intro allI impI)
        fix j assume "j + 1 < Suc k"
        then show "failed (fst (attempts e p (ep # rest) w ! j))
               \<and> \<not> d < now (snd (attempts e p (ep # rest) w ! j))"
          using k(4) a0 \<open>failed out\<close> False by (cases j) simp_all
      qed
      have 4: "case res of
              Inr body \<Rightarrow> 0 < Suc k \<and> fst (attempts e p (ep # rest) w ! (Suc k - 1)) = Response 200 body
            | Inl err \<Rightarrow> err = no_valid_response
                \<and> (0 < Suc k \<longrightarrow> failed (fst (attempts e p (ep # rest) w ! (Suc k - 1))))
                \<and> (Suc k = length (ep # rest) \<or> d < now w')"
        using k(5) a0 \<open>failed out\<close> by (cases k) (auto split: sum.splits)
      from k(1) 1 2 3 4 show ?thesis
        by (intro exI [of _ "Suc k"]) simp
    qed
  qed
qed





section \<open>SubmissionGate and CycleDriver\<close>

lemma fetch_loop_frame:
  "fetch_loop e d p eps w = (res, w') \<Longrightarrow> chain w' = chain w \<and> extrinsics w' = extrinsics w"
proof (induction eps arbitrary: w)
  case Nil
  then show ?case by simp
next
  case (Cons ep rest)
  obtain out w1 where g: "requests_get e (ep @ p) w = (out, w1)"
    by (cases "requests_get e (ep @ p) w")
  then have f: "chain w1 = chain w \<and> extrinsics w1 = extrinsics w"
    by (rule requests_get_frame)
  show ?case
  proof (cases "failed out \<and> \<not> d < now w1")
    case True
    with fetch_loop_step_fail [OF g, of d rest] Cons.prems
    have "fetch_loop e d p rest w1 = (res, w')" by simp
    from Cons.IH [OF this] f show ?thesis by simp
  next
    case False
    then have "w' = w1"
    proof (cases "failed out")
      case True
      with False fetch_loop_step_fail [OF g, of d rest] Cons.prems show ?thesis by simp
    next
      case False
      then obtain body where "out = Response 200 body" using not_failed by blast
      with g Cons.prems show ?thesis by simp
    qed
    with f show ?thesis by simp
  qed
qed

lemma fetch_from_any_endpoint_trace:
  assumes "fetch_from_any_endpoint e p w = (res, w')"
  shows "\<exists>k. 1 \<le> k \<and> k \<le> 5
           \<and> requests w' = requests w @ map (\<lambda>ep. ep @ p) (take k DRAND_ENDPOINTS)
           \<and> chain w' = chain w \<and> extrinsics w' = extrinsics w"
proof -
  let ?d = "now w + HTTP_FETCH_TIMEOUT"
  from assms have l: "fetch_loop e ?d p DRAND_ENDPOINTS w = (res, w')"
    by (simp add: fetch_from_any_endpoint_def)
  have len: "length DRAND_ENDPOINTS = 5" by (simp add: DRAND_ENDPOINTS_def)
  from fetch_loop_trace [OF l] obtain k where k: "k \<le> length DRAND_ENDPOINTS"
    "w' = world_after e p DRAND_ENDPOINTS w k"
    "requests w' = requests w @ map (\<lambda>ep. ep @ p) (take k DRAND_ENDPOINTS)"
    "case res of
              Inr body \<Rightarrow> 0 < k \<and> fst (attempts e p DRAND_ENDPOINTS w ! (k - 1)) = Response 200 body
            | Inl err \<Rightarrow> err = no_valid_response
                \<and> (0 < k \<longrightarrow> failed (fst (attempts e p DRAND_ENDPOINTS w ! (k - 1))))
                \<and> (k = length DRAND_ENDPOINTS \<or> ?d < now w')"
    by blast
  have "0 < k"
  proof (rule ccontr)
    assume "\<not> 0 < k"
    then have "k = 0" by simp
    with k(2) have "w' = w" by (simp add: world_after_def)
    with k(4) \<open>k = 0\<close> len show False by (cases res) simp_all
  qed
  with k(1,3) len fetch_loop_frame [OF l] show ?thesis
    by (intro exI [of _ k]) simp
qed

lemma fetch_drand_by_round_trace:
  assumes "fetch_drand_by_round e r w = (res, w')"
  shows "\<exists>k. 1 \<le> k \<and> k \<le> 5 \<and> requests w' = requests w @ round_uris r k
           \<and> chain w' = chain w \<and> extrinsics w' = extrinsics w"
  using fetch_from_any_endpoint_trace [of e _ w res w'] assms
  by (simp add: fetch_drand_by_round_def round_uris_def)


lemma fetch_pulses_trace:
  assumes "fetch_pulses e rs acc w = (res, w')"
  shows "\<exists>ks. length ks \<le> length rs \<and> (\<forall>k\<in>set ks. 1 \<le> k \<and> k \<le> 5)
           \<and> requests w' = requests w @ concat (map2 round_uris rs ks)
           \<and> chain w' = chain w \<and> extrinsics w' = extrinsics w
           \<and> (case res of
                Inr ps \<Rightarrow> length ks = length rs
                  \<and> (\<exists>new. ps = acc @ new
                       \<and> list_all2 (\<lambda>r p. \<exists>w0 resp w1.
                            fetch_drand_by_round e r w0 = (Inr resp, w1)
                            \<and> try_into_pulse resp = Inr p) rs new)
              | Inl err \<Rightarrow> ks \<noteq> [])"
  using assms
proof (induction rs arbitrary: acc w)
  case Nil
  then show ?case by (intro exI [of _ "[]"]) auto
next
  case (Cons r rs)
  obtain r1 w1 where f: "fetch_drand_by_round e r w = (r1, w1)"
    by (cases "fetch_drand_by_round e r w")
  from fetch_drand_by_round_trace [OF f] obtain k where k: "1 \<le> k" "k \<le> 5"
    "requests w1 = requests w @ round_uris r k" "chain w1 = chain w"
    "extrinsics w1 = extrinsics w"
    by blast
  have stop: "res = Inl err \<and> w' = w1 \<Longrightarrow> ?case" for err
    using k by (intro exI [of _ "[k]"]) simp
  show ?case
  proof (cases r1)
    case (Inl err)
    with f Cons.prems have "res = Inl err \<and> w' = w1" by simp
    then show ?thesis by (rule stop)
  next
    case (Inr resp)
    show ?thesis
    proof (cases "try_into_pulse resp")
      case (Inl err)
      with Inr f Cons.prems have "res = Inl err \<and> w' = w1" by simp
      then show ?thesis by (rule stop)
    next
      case (Inr p)
      with \<open>r1 = Inr resp\<close> f Cons.prems
      have "fetch_pulses e rs (acc @ [p]) w1 = (res, w')" by simp
      from Cons.IH [OF this] obtain ks where ks: "length ks \<le> length rs"
        "\<forall>k\<in>set ks. 1 \<le> k \<and> k \<le> 5"
        "requests w' = requests w1 @ concat (map2 round_uris rs ks)"
        "chain w' = chain w1" "extrinsics w' = extrinsics w1"
        "case res of
                Inr ps \<Rightarrow> length ks = length rs
                  \<and> (\<exists>new. ps = (acc @ [p]) @ new
                       \<and> list_all2 (\<lambda>r p. \<exists>w0 resp w1.
                            fetch_drand_by_round e r w0 = (Inr resp, w1)
                            \<and> try_into_pulse resp = Inr p) rs new)
              | Inl err \<Rightarrow> ks \<noteq> []"
        by blast
      have a: "\<exists>w0 resp w1. fetch_drand_by_round e r w0 = (Inr resp, w1)
                            \<and> try_into_pulse resp = Inr p"
        using f \<open>r1 = Inr resp\<close> Inr by blast
      have "case res of
                Inr ps \<Rightarrow> length (k # ks) = length (r # rs)
                  \<and> (\<exists>new. ps = acc @ new
                       \<and> list_all2 (\<lambda>r p. \<exists>w0 resp w1.
                            fetch_drand_by_round e r w0 = (Inr resp, w1)
                            \<and> try_into_pulse resp = Inr p) (r # rs) new)
              | Inl err \<Rightarrow> k # ks \<noteq> []"
      proof (cases res)
        case (Inl err)
        then show ?thesis by simp
      next
        case (Inr ps)
        with ks(6) obtain new where "length ks = length rs" "ps = (acc @ [p]) @ new"
          "list_all2 (\<lambda>r p. \<exists>w0 resp w1.
                            fetch_drand_by_round e r w0 = (Inr resp, w1)
                            \<and> try_into_pulse resp = Inr p) rs new"
          by auto
        with a Inr show ?thesis
          by (auto simp del: fetch_pulses.simps intro!: exI [of _ "p # new"])
      qed
      with k ks show ?thesis
        by (intro exI [of _ "k # ks"]) simp
    qed
  qed
qed


lemma upto_as_map: "[a .. a + int n - 1] = map (\<lambda>i. a + int i) [0 ..< n]"
proof (induction n)
  case 0
  show ?case by simp
next
  case (Suc n)
  have "[a .. a + int (Suc n) - 1] = [a .. a + int n - 1] @ [a + int n]"
    using upto_rec2 [of a "a + int n"] by simp
  with Suc show ?case by simp
qed

lemma targets_as_map:
  "0 \<le> n \<Longrightarrow> [s + 1 .. s + n] = map (\<lambda>i. s + 1 + int i) [0 ..< nat n]"
  using upto_as_map [of "s + 1" "nat n"] by (simp add: algebra_simps)

lemma length_targets: "0 \<le> n \<Longrightarrow> length [s + 1 .. s + n] = nat n"
  by (simp add: targets_as_map)

lemma snp_below:
  "current_block < value_or_0 (NextUnsignedAt (chain w)) \<Longrightarrow>
     submit_new_pulses e current_block w = (Inr BelowThreshold, w)"
  by (simp add: submit_new_pulses_def)

lemma snp_no_gap:
  assumes "\<not> current_block < value_or_0 (NextUnsignedAt (chain w))"
    and "fetch_drand_latest e w = (Inr latest_resp, w1)"
    and "try_into_pulse latest_resp = Inr latest_pulse"
    and "stored = (if value_or_0 (LastStoredRound (chain w)) = 0 then pulse_round latest_pulse - 1
                   else value_or_0 (LastStoredRound (chain w)))"
    and "pulse_round latest_pulse \<le> stored"
  shows "submit_new_pulses e current_block w = (Inr NoNewRounds, w1)"
  using assms by (simp add: submit_new_pulses_def Let_def)

lemma snp_eligible:
  assumes "\<not> current_block < value_or_0 (NextUnsignedAt (chain w))"
    and "fetch_drand_latest e w = (Inr latest_resp, w1)"
    and "try_into_pulse latest_resp = Inr latest_pulse"
    and "stored = (if value_or_0 (LastStoredRound (chain w)) = 0 then pulse_round latest_pulse - 1
                   else value_or_0 (LastStoredRound (chain w)))"
    and "stored < pulse_round latest_pulse"
    and "fetch_pulses e [stored + 1 .. stored + min (pulse_round latest_pulse - stored) 50] [] w1
           = (r0, w2)"
  shows "submit_new_pulses e current_block w =
     (case r0 of
        Inl err \<Rightarrow> (Inl err, w2)
      | Inr fetched \<Rightarrow>
          if fetched = [] then (Inr NoNewPulses, w2)
          else
            (case encode_pulses_payload
                    \<lparr>block_number = current_block, pulses = fetched, public = public_key e\<rparr> of
               Inl err \<Rightarrow> (Inl err, w2)
             | Inr encoded_payload \<Rightarrow>
                 (case node e \<lparr>call_block_number = current_block,
                                call_pulses = pulses_for_call fetched,
                                call_public = ''0x'' @ hex (public_key e),
                                call_payload_signature = ''0x'' @ hex (sign e encoded_payload)\<rparr>
                         (chain w2) of
                    (is_success, chain') \<Rightarrow>
                      (Inr (Submitted
                             \<lparr>block_number = current_block, pulses = fetched,
                               public = public_key e\<rparr> encoded_payload is_success),
                       w2\<lparr>chain := chain',
                          extrinsics := extrinsics w2 @
                            [\<lparr>call_block_number = current_block,
                              call_pulses = pulses_for_call fetched,
                              call_public = ''0x'' @ hex (public_key e),
                              call_payload_signature = ''0x'' @ hex (sign e encoded_payload)\<rparr>]\<rparr>))))"
proof -
  have m: "MAX_PULSES_TO_FETCH = 50" by (simp add: MAX_PULSES_TO_FETCH_def)
  show ?thesis
  proof (cases "value_or_0 (LastStoredRound (chain w)) = 0")
    case True
    with assms show ?thesis
      by (simp add: submit_new_pulses_def Let_def m split: sum.splits prod.splits)
  next
    case False
    with assms show ?thesis
      by (simp add: submit_new_pulses_def Let_def m split: sum.splits prod.splits)
  qed
qed

lemma snp_cases:
  assumes "submit_new_pulses e current_block w = (res, w')"
  obtains (below) "current_block < value_or_0 (NextUnsignedAt (chain w))"
      "res = Inr BelowThreshold" "w' = w"
  | (latest_failed) err where "\<not> current_block < value_or_0 (NextUnsignedAt (chain w))"
      "fetch_drand_latest e w = (Inl err, w')" "res = Inl err"
  | (latest_invalid) latest_resp err where
      "\<not> current_block < value_or_0 (NextUnsignedAt (chain w))"
      "fetch_drand_latest e w = (Inr latest_resp, w')" "try_into_pulse latest_resp = Inl err"
      "res = Inl err"
  | (gate_open) latest_resp w1 latest_pulse where
      "\<not> current_block < value_or_0 (NextUnsignedAt (chain w))"
      "fetch_drand_latest e w = (Inr latest_resp, w1)"
      "try_into_pulse latest_resp = Inr latest_pulse"
proof (cases "current_block < value_or_0 (NextUnsignedAt (chain w))")
  case True
  with assms snp_below [OF True, of e] show ?thesis by (intro below) simp_all
next
  case False
  obtain r1 w1 where f: "fetch_drand_latest e w = (r1, w1)"
    by (cases "fetch_drand_latest e w")
  show ?thesis
  proof (cases r1)
    case (Inl err)
    with False f assms have "res = Inl err" "w' = w1"
      by (simp_all add: submit_new_pulses_def Let_def)
    with False f Inl show ?thesis by (intro latest_failed [of err]) simp_all
  next
    case (Inr latest_resp)
    show ?thesis
    proof (cases "try_into_pulse latest_resp")
      case (Inl err)
      with False f Inr assms have "res = Inl err" "w' = w1"
        by (simp_all add: submit_new_pulses_def Let_def)
      with False f Inr Inl show ?thesis by (intro latest_invalid [of latest_resp err]) simp_all
    next
      case (Inr latest_pulse)
      with False f \<open>r1 = Inr latest_resp\<close> show ?thesis
        by (intro gate_open [of latest_resp w1 latest_pulse]) simp_all
    qed
  qed
qed

lemma node_frame:
  "requests (w2\<lparr>chain := c, extrinsics := x\<rparr>) = requests w2"
  by simp





text \<open>
  Claim C8, as the code has it. A payload that the cycle constructs has a non-empty
  pulse list of at most 50 pulses (as many as target rounds), the i-th pulse being the
  validated answer to the request for the i-th target round; its rounds are the target
  rounds, consecutive and increasing, when every answer carries the round that was
  requested, which the code does not check. The early return on an empty list precedes
  the construction of the payload, and is never taken.
\<close>

theorem payload_invariant:
  "(submit_new_pulses e current_block w = (Inr (Submitted payload encoded ok), w') \<longrightarrow>
      pulses payload \<noteq> [] \<and> length (pulses payload) \<le> 50
      \<and> block_number payload = current_block \<and> public payload = public_key e
      \<and> (\<exists>latest_resp w1 latest_pulse stored targets.
            fetch_drand_latest e w = (Inr latest_resp, w1)
          \<and> try_into_pulse latest_resp = Inr latest_pulse
          \<and> stored = (if value_or_0 (LastStoredRound (chain w)) = 0
                       then pulse_round latest_pulse - 1
                       else value_or_0 (LastStoredRound (chain w)))
          \<and> targets = [stored + 1 .. stored + min (pulse_round latest_pulse - stored) 50]
          \<and> length (pulses payload) = length targets
          \<and> list_all2 (\<lambda>r p. \<exists>w0 resp w1.
                 fetch_drand_by_round e r w0 = (Inr resp, w1) \<and> try_into_pulse resp = Inr p)
               targets (pulses payload)
          \<and> ((\<forall>r\<in>set targets. \<forall>w0 resp w1.
                 fetch_drand_by_round e r w0 = (Inr resp, w1) \<longrightarrow> resp_round resp = Some r)
              \<longrightarrow> map pulse_round (pulses payload) = targets)))
   \<and> fst (submit_new_pulses e current_block w) \<noteq> Inr NoNewPulses"
proof -
  obtain res w'' where s: "submit_new_pulses e current_block w = (res, w'')"
    by (cases "submit_new_pulses e current_block w")
  have main: "(\<forall>payload encoded ok. res = Inr (Submitted payload encoded ok) \<longrightarrow>
      pulses payload \<noteq> [] \<and> length (pulses payload) \<le> 50
      \<and> block_number payload = current_block \<and> public payload = public_key e
      \<and> (\<exists>latest_resp w1 latest_pulse stored targets.
            fetch_drand_latest e w = (Inr latest_resp, w1)
          \<and> try_into_pulse latest_resp = Inr latest_pulse
          \<and> stored = (if value_or_0 (LastStoredRound (chain w)) = 0
                       then pulse_round latest_pulse - 1
                       else value_or_0 (LastStoredRound (chain w)))
          \<and> targets = [stored + 1 .. stored + min (pulse_round latest_pulse - stored) 50]
          \<and> length (pulses payload) = length targets
          \<and> list_all2 (\<lambda>r p. \<exists>w0 resp w1.
                 fetch_drand_by_round e r w0 = (Inr resp, w1) \<and> try_into_pulse resp = Inr p)
               targets (pulses payload)
          \<and> ((\<forall>r\<in>set targets. \<forall>w0 resp w1.
                 fetch_drand_by_round e r w0 = (Inr resp, w1) \<longrightarrow> resp_round resp = Some r)
              \<longrightarrow> map pulse_round (pulses payload) = targets)))
    \<and> res \<noteq> Inr NoNewPulses"
    using s
  proof (cases rule: snp_cases)
    case below
    then show ?thesis by simp
  next
    case (latest_failed err)
    then show ?thesis by simp
  next
    case (latest_invalid latest_resp err)
    then show ?thesis by simp
  next
    case (gate_open latest_resp w1 latest_pulse)
    let ?stored = "if value_or_0 (LastStoredRound (chain w)) = 0 then pulse_round latest_pulse - 1
                   else value_or_0 (LastStoredRound (chain w))"
    let ?n = "min (pulse_round latest_pulse - ?stored) 50"
    let ?targets = "[?stored + 1 .. ?stored + ?n]"
    let ?answers = "\<lambda>r p. \<exists>w0 resp w1.
                 fetch_drand_by_round e r w0 = (Inr resp, w1) \<and> try_into_pulse resp = Inr p"
    show ?thesis
    proof (cases "pulse_round latest_pulse \<le> ?stored")
      case True
      with snp_no_gap [OF gate_open refl True] s show ?thesis by simp
    next
      case False
      then have lt: "?stored < pulse_round latest_pulse" by simp
      then have n: "1 \<le> ?n" "?n \<le> 50" by simp_all
      then have len: "length ?targets = nat ?n" "1 \<le> nat ?n" "nat ?n \<le> 50"
        using length_targets [of ?n ?stored] by simp_all
      obtain r0 w2 where f: "fetch_pulses e ?targets [] w1 = (r0, w2)"
        by (cases "fetch_pulses e ?targets [] w1")
      note e = snp_eligible [OF gate_open refl lt f]
      show ?thesis
      proof (cases r0)
        case (Inl err)
        with e s show ?thesis by simp
      next
        case (Inr fetched)
        with fetch_pulses_trace [OF f] have a: "list_all2 ?answers ?targets fetched"
          by auto
        then have l: "length fetched = length ?targets"
          by (rule list_all2_lengthD [symmetric])
        with len have ne: "fetched \<noteq> []" by auto
        have honest: "map pulse_round fetched = ?targets"
          if h: "\<forall>r\<in>set ?targets. \<forall>w0 resp w1.
                 fetch_drand_by_round e r w0 = (Inr resp, w1) \<longrightarrow> resp_round resp = Some r"
        proof -
          have "list_all2 (\<lambda>r p. pulse_round p = r) ?targets fetched"
            using a
          proof (rule list.rel_mono_strong)
            fix r p assume "r \<in> set ?targets" "p \<in> set fetched" "?answers r p"
            then obtain w0 resp w1 where
              "fetch_drand_by_round e r w0 = (Inr resp, w1)" "try_into_pulse resp = Inr p"
              by blast
            with h \<open>r \<in> set ?targets\<close> have "resp_round resp = Some r" by blast
            with \<open>try_into_pulse resp = Inr p\<close> show "pulse_round p = r"
              by (auto simp: try_into_pulse_Inr)
          qed
          then show ?thesis
            by (induction rule: list_all2_induct) simp_all
        qed
        from e Inr ne s have
          r: "\<forall>payload encoded ok. res = Inr (Submitted payload encoded ok) \<longrightarrow>
                payload = \<lparr>block_number = current_block, pulses = fetched,
                           public = public_key e\<rparr>"
          and nn: "res \<noteq> Inr NoNewPulses"
          by (auto split: sum.splits prod.splits)
        show ?thesis
        proof (intro conjI allI impI)
          fix payload encoded ok assume "res = Inr (Submitted payload encoded ok)"
          with r have p: "payload = \<lparr>block_number = current_block, pulses = fetched,
                           public = public_key e\<rparr>"
            by blast
          from p ne show "pulses payload \<noteq> []" by simp
          from p l len show "length (pulses payload) \<le> 50" by simp
          from p show "block_number payload = current_block" by simp
          from p show "public payload = public_key e" by simp
          from p gate_open a l honest
          show "\<exists>latest_resp w1 latest_pulse stored targets.
            fetch_drand_latest e w = (Inr latest_resp, w1)
          \<and> try_into_pulse latest_resp = Inr latest_pulse
          \<and> stored = (if value_or_0 (LastStoredRound (chain w)) = 0
                       then pulse_round latest_pulse - 1
                       else value_or_0 (LastStoredRound (chain w)))
          \<and> targets = [stored + 1 .. stored + min (pulse_round latest_pulse - stored) 50]
          \<and> length (pulses payload) = length targets
          \<and> list_all2 (\<lambda>r p. \<exists>w0 resp w1.
                 fetch_drand_by_round e r w0 = (Inr resp, w1) \<and> try_into_pulse resp = Inr p)
               targets (pulses payload)
          \<and> ((\<forall>r\<in>set targets. \<forall>w0 resp w1.
                 fetch_drand_by_round e r w0 = (Inr resp, w1) \<longrightarrow> resp_round resp = Some r)
              \<longrightarrow> map pulse_round (pulses payload) = targets)"
            by (intro exI [of _ latest_resp] exI [of _ w1] exI [of _ latest_pulse]
                exI [of _ ?stored] exI [of _ ?targets]) simp
        next
          show "res \<noteq> Inr NoNewPulses" by (rule nn)
        qed
      qed
    qed
  qed
  with s show ?thesis by auto
qed


text \<open>Claim C8 as stated fails with a beacon that answers the requests for rounds 6
  and 7 both with round 7: the payload submitted carries the rounds 7, 7.\<close>

theorem payload_rounds_not_consecutive:
  "fst (submit_new_pulses stuck_beacon 1 (example_world (Some 5)))
     = Inr (Submitted
         \<lparr>block_number = 1, pulses = [example_pulse 7, example_pulse 7], public = [9, 8]\<rparr>
         (payload_layout
           \<lparr>block_number = 1, pulses = [example_pulse 7, example_pulse 7], public = [9, 8]\<rparr>)
         True)
   \<and> map pulse_round [example_pulse 7, example_pulse 7] = [7, 7]"
  by code_simp

lemma honest_beacon_by_round:
  assumes "r = 6 \<or> r = 7" and "fetch_drand_by_round honest_beacon r w0 = (Inr resp, w1)"
  shows "resp_round resp = Some r"
proof -
  have d: "str_int 6 = ''6''" "str_int 7 = ''7''" by code_simp+
  have "fst (fetch_drand_by_round honest_beacon 6 w0) = Inr (example_resp 6)"
    "fst (fetch_drand_by_round honest_beacon 7 w0) = Inr (example_resp 7)"
    by (simp_all add: fetch_drand_by_round_def fetch_from_any_endpoint_def DRAND_ENDPOINTS_def
        requests_get_def honest_beacon_def d)
  with assms show ?thesis by (auto simp: example_resp_def)
qed

theorem payload_invariant_witness:
  "\<exists>payload encoded ok w'.
      submit_new_pulses honest_beacon 1 (example_world (Some 5))
        = (Inr (Submitted payload encoded ok), w')
      \<and> pulses payload \<noteq> [] \<and> length (pulses payload) \<le> 50
      \<and> map pulse_round (pulses payload) = [6, 7]"
proof -
  let ?w = "example_world (Some 5)"
  let ?pp = "\<lparr>block_number = 1, pulses = [example_pulse 6, example_pulse 7], public = [9, 8]\<rparr>"
  have "fst (submit_new_pulses honest_beacon 1 ?w) = Inr (Submitted ?pp (payload_layout ?pp) True)"
    by code_simp
  then have s: "submit_new_pulses honest_beacon 1 ?w
      = (Inr (Submitted ?pp (payload_layout ?pp) True), snd (submit_new_pulses honest_beacon 1 ?w))"
    by (metis prod.collapse)
  have l: "fst (fetch_drand_latest honest_beacon ?w) = Inr (example_resp 7)"
    by code_simp
  from payload_invariant [THEN conjunct1, THEN mp, OF s]
  obtain latest_resp w1 latest_pulse stored targets where
    h: "pulses ?pp \<noteq> []" "length (pulses ?pp) \<le> 50"
      "fetch_drand_latest honest_beacon ?w = (Inr latest_resp, w1)"
      "try_into_pulse latest_resp = Inr latest_pulse"
      "stored = (if value_or_0 (LastStoredRound (chain ?w)) = 0
                       then pulse_round latest_pulse - 1
                       else value_or_0 (LastStoredRound (chain ?w)))"
      "targets = [stored + 1 .. stored + min (pulse_round latest_pulse - stored) 50]"
      "(\<forall>r\<in>set targets. \<forall>w0 resp w1.
                 fetch_drand_by_round honest_beacon r w0 = (Inr resp, w1)
                 \<longrightarrow> resp_round resp = Some r)
              \<longrightarrow> map pulse_round (pulses ?pp) = targets"
    by blast
  from h(3) l have "latest_resp = example_resp 7" by simp
  with h(4) have "pulse_round latest_pulse = 7" by (auto simp: example_pulse_def)
  with h(5) have "stored = 5" by (simp add: example_world_def value_or_0_def)
  with h(6) \<open>pulse_round latest_pulse = 7\<close> have t: "targets = [6, 7]" by simp
  have "\<forall>r\<in>set targets. \<forall>w0 resp w1.
                 fetch_drand_by_round honest_beacon r w0 = (Inr resp, w1)
                 \<longrightarrow> resp_round resp = Some r"
    using t honest_beacon_by_round by auto
  with h(7) t have m: "map pulse_round (pulses ?pp) = [6, 7]" by simp
  show ?thesis
  proof (intro exI conjI)
    show "submit_new_pulses honest_beacon 1 ?w
      = (Inr (Submitted ?pp (payload_layout ?pp) True), snd (submit_new_pulses honest_beacon 1 ?w))"
      by (rule s)
    show "pulses ?pp \<noteq> []" by (rule h(1))
    show "length (pulses ?pp) \<le> 50" by (rule h(2))
    show "map pulse_round (pulses ?pp) = [6, 7]" by (rule m)
  qed
qed



end
